theory Spec2Isabelle
  imports Main "HOL-Library.AList"
begin

section \<open>The CAS engine of casEngine.py\<close>

text \<open>
  The engine keeps three module-level dictionaries (variables, functions, symbol cache) and
  evaluates one LaTeX string at a time.  Python exceptions are values of type \<open>error\<close>; a function
  that can raise returns \<open>error + 'a\<close> with \<open>Inl\<close> the exception.  A function that touches the
  module dictionaries takes the session and returns the session it leaves behind, also when
  it raises.

  SymPy is not part of the repository.  Its operations are the fields of the record \<open>sympy\<close>,
  and every function of the engine takes that record as its first argument, so each theorem
  below holds for whatever the library computes.  Python dictionaries are association lists in
  insertion order (\<open>AList.update\<close> overwrites in place and appends a new key at the end).
  A Python \<open>str\<close> is the \<open>string\<close> of the bytes of its UTF-8 encoding, so the model agrees
  with Python on ASCII text, and the few non-ASCII characters in the source's messages and
  patterns are written as their bytes.
\<close>

subsection \<open>Exceptions\<close>

datatype error =
    ValueError string
  | IndexError string
  | RecursionError string
  | LibraryError string


subsection \<open>Expressions\<close>

datatype known_constant = ConstPi | ConstE | ConstI | ConstOo

datatype expr =
    Integer int
  | Rational int int
  | Float string
  | Symbol string
  | Dummy string
  | Constant known_constant
  | Apply string "expr list"
  | AppliedUndef string "expr list"
  | Matrix "expr list list"
  | PyList "expr list"

text \<open>\<open>str(sym)\<close> of a symbol; a \<open>Dummy('x')\<close> prints as \<open>_x\<close>.\<close>

fun str :: "expr \<Rightarrow> string" where
  "str (Symbol n) = n"
| "str (Dummy n) = CHR ''_'' # n"
| "str _ = []"

text \<open>\<open>expr.args\<close> for the node kinds that \<open>_apply_user_functions\<close> walks into.\<close>

fun args :: "expr \<Rightarrow> expr list" where
  "args (Apply h as) = as"
| "args (AppliedUndef f as) = as"
| "args _ = []"



subsection \<open>The library\<close>

text \<open>
  What \<open>parse_expr\<close> receives as \<open>local_dict\<close>: a name bound to an undefined-function class
  or to a symbol.
\<close>

datatype local_val = LFunction string | LSymbol expr

record sympy =
  parse_latex :: "string \<Rightarrow> error + expr"
  parse_expr :: "string \<Rightarrow> (string \<times> local_val) list \<Rightarrow> error + expr"
  free_symbols :: "expr \<Rightarrow> expr list"
  subs :: "expr \<Rightarrow> (expr \<times> expr) list \<Rightarrow> error + expr"
  rebuild :: "expr \<Rightarrow> expr list \<Rightarrow> error + expr"
  sympy_call :: "string \<Rightarrow> expr list \<Rightarrow> error + expr"
  latex :: "expr \<Rightarrow> error + string"
  pretty :: "expr \<Rightarrow> error + string"
  eigenvals :: "expr \<Rightarrow> error + (expr \<times> int) list"
  eigenvects :: "expr \<Rightarrow> error + (expr \<times> int \<times> expr list) list"
  rref :: "expr \<Rightarrow> error + expr \<times> int list"
  rank :: "expr \<Rightarrow> error + int"
  nullspace :: "expr \<Rightarrow> error + expr list"
  columnspace :: "expr \<Rightarrow> error + expr list"
  recursion_limit :: nat

subsection \<open>Global CAS state\<close>

record var_binding =
  vb_expr :: expr
  vb_deps :: "string list"

record fn_binding =
  fb_params :: "expr list"
  fb_expr :: expr
  fb_deps :: "string list"

record session =
  variables :: "(string \<times> var_binding) list"
  funcs :: "(string \<times> fn_binding) list"
  symbols_cache :: "(string \<times> expr) list"

definition empty_session :: session where
  "empty_session = \<lparr>variables = [], funcs = [], symbols_cache = []\<rparr>"

subsection \<open>Helpers\<close>

definition get_symbol :: "session \<Rightarrow> string \<Rightarrow> session \<times> expr" where
  "get_symbol s name =
     (case map_of (symbols_cache s) name of
        None \<Rightarrow> (s\<lparr>symbols_cache := symbols_cache s @ [(name, Symbol name)]\<rparr>, Symbol name)
      | Some sm \<Rightarrow> (s, sm))"

definition circular_msg :: "string \<Rightarrow> string" where
  "circular_msg name =
     ''Circular dependency detected involving '' @ [CHR 0x27] @ name @ [CHR 0x27]"

text \<open>
  CPython raises \<open>RecursionError\<close> when the nesting of calls reaches its recursion limit.  The
  recursive functions of the resolver take the number \<open>d\<close> of frames that are left: every call
  takes one, and a call with none left raises.
\<close>

definition recursion_error :: error where
  "recursion_error = RecursionError ''maximum recursion depth exceeded''"

text \<open>
  \<open>_resolve_variable\<close>.  The \<open>for\<close> loop over \<open>expr.free_symbols\<close> is
  \<open>resolve_variable_loop\<close>; it carries the dictionary \<open>subs\<close> built so far.  \<open>visited\<close> is passed
  by value (\<open>visited.copy()\<close>), after \<open>visited.add(name)\<close>.
\<close>

fun resolve_variable ::
    "sympy \<Rightarrow> nat \<Rightarrow> session \<Rightarrow> string \<Rightarrow> string set \<Rightarrow> session \<times> (error + expr)"
  and resolve_variable_loop ::
    "sympy \<Rightarrow> nat \<Rightarrow> session \<Rightarrow> expr list \<Rightarrow> string set \<Rightarrow> (expr \<times> expr) list
       \<Rightarrow> session \<times> (error + (expr \<times> expr) list)"
where
  "resolve_variable k 0 s name visited = (s, Inl recursion_error)"
| "resolve_variable k (Suc d) s name visited =
     (if name \<in> visited then (s, Inl (ValueError (circular_msg name)))
      else (case map_of (variables s) name of
          None \<Rightarrow> (case get_symbol s name of (s', sm) \<Rightarrow> (s', Inr sm))
        | Some b \<Rightarrow>
            (case resolve_variable_loop k d s (free_symbols k (vb_expr b)) (insert name visited) [] of
               (s', Inl e) \<Rightarrow> (s', Inl e)
             | (s', Inr sb) \<Rightarrow>
                 (if sb \<noteq> [] then (s', subs k (vb_expr b) sb) else (s', Inr (vb_expr b))))))"
| "resolve_variable_loop k d s [] visited sb = (s, Inr sb)"
| "resolve_variable_loop k d s (sm # rest) visited sb =
     (if map_of (variables s) (str sm) \<noteq> None then
        (case resolve_variable k d s (str sm) visited of
           (s', Inl e) \<Rightarrow> (s', Inl e)
         | (s', Inr v) \<Rightarrow> resolve_variable_loop k d s' rest visited (sb @ [(sm, v)]))
      else resolve_variable_loop k d s rest visited sb)"

text \<open>
  \<open>_resolve_expr\<close> and \<open>_apply_user_functions\<close> call each other, and a user function whose body
  applies itself makes them recurse without end, until the recursion limit.  The list
  comprehension over \<open>expr.args\<close> is \<open>apply_user_functions_args\<close>, the loop over the free
  symbols is \<open>resolve_expr_loop\<close>.
\<close>

fun resolve_expr_loop ::
    "sympy \<Rightarrow> nat \<Rightarrow> session \<Rightarrow> expr list \<Rightarrow> string set \<Rightarrow> (expr \<times> expr) list
       \<Rightarrow> session \<times> (error + (expr \<times> expr) list)"
where
  "resolve_expr_loop k d s [] exclude sb = (s, Inr sb)"
| "resolve_expr_loop k d s (sm # rest) exclude sb =
     (if map_of (variables s) (str sm) \<noteq> None \<and> str sm \<notin> exclude then
        (case resolve_variable k d s (str sm) {} of
           (s', Inl e) \<Rightarrow> (s', Inl e)
         | (s', Inr v) \<Rightarrow> resolve_expr_loop k d s' rest exclude (sb @ [(sm, v)]))
      else resolve_expr_loop k d s rest exclude sb)"

text \<open>
  The three nested tests that open \<open>_apply_user_functions\<close>: the expression is an applied
  undefined function, its name is a user function, and the arity fits.  When one of them
  fails the source falls through to the walk over \<open>expr.args\<close>.
\<close>

definition user_function_call :: "session \<Rightarrow> expr \<Rightarrow> (fn_binding \<times> expr list) option" where
  "user_function_call s e =
     (case e of
        AppliedUndef fname as \<Rightarrow>
          (case map_of (funcs s) fname of
             Some fdef \<Rightarrow> if length as = length (fb_params fdef) then Some (fdef, as) else None
           | None \<Rightarrow> None)
      | _ \<Rightarrow> None)"

fun apply_user_functions :: "sympy \<Rightarrow> nat \<Rightarrow> session \<Rightarrow> expr \<Rightarrow> session \<times> (error + expr)"
  and apply_user_functions_args ::
    "sympy \<Rightarrow> nat \<Rightarrow> session \<Rightarrow> expr list \<Rightarrow> session \<times> (error + expr list)"
  and apply_user_functions_walk :: "sympy \<Rightarrow> nat \<Rightarrow> session \<Rightarrow> expr \<Rightarrow> session \<times> (error + expr)"
  and resolve_expr :: "sympy \<Rightarrow> nat \<Rightarrow> session \<Rightarrow> expr \<Rightarrow> string set \<Rightarrow> session \<times> (error + expr)"
where
  "apply_user_functions k 0 s e = (s, Inl recursion_error)"
| "apply_user_functions k (Suc d) s e =
     (case user_function_call s e of
        Some (fdef, as) \<Rightarrow>
          (case subs k (fb_expr fdef) (zip (fb_params fdef) as) of
             Inl err \<Rightarrow> (s, Inl err)
           | Inr result \<Rightarrow>
               (case apply_user_functions k d s result of
                  (s', Inl err) \<Rightarrow> (s', Inl err)
                | (s', Inr result') \<Rightarrow> resolve_expr k d s' result' {}))
      | None \<Rightarrow> apply_user_functions_walk k d s e)"
| "apply_user_functions_walk k d s e =
     (if args e \<noteq> [] then
        (case apply_user_functions_args k d s (args e) of
           (s', Inl err) \<Rightarrow> (s', Inl err)
         | (s', Inr new_args) \<Rightarrow>
             (if new_args \<noteq> args e then (s', rebuild k e new_args) else (s', Inr e)))
      else (s, Inr e))"
| "apply_user_functions_args k d s [] = (s, Inr [])"
| "apply_user_functions_args k d s (a # as) =
     (case apply_user_functions k d s a of
        (s', Inl err) \<Rightarrow> (s', Inl err)
      | (s', Inr a') \<Rightarrow>
          (case apply_user_functions_args k d s' as of
             (s'', Inl err) \<Rightarrow> (s'', Inl err)
           | (s'', Inr as') \<Rightarrow> (s'', Inr (a' # as'))))"
| "resolve_expr k 0 s e exclude = (s, Inl recursion_error)"
| "resolve_expr k (Suc d) s e exclude =
     (case apply_user_functions k d s e of
        (s', Inl err) \<Rightarrow> (s', Inl err)
      | (s', Inr e') \<Rightarrow>
          (case resolve_expr_loop k d s' (free_symbols k e') exclude [] of
             (s'', Inl err) \<Rightarrow> (s'', Inl err)
           | (s'', Inr sb) \<Rightarrow> (if sb \<noteq> [] then (s'', subs k e' sb) else (s'', Inr e'))))"


subsection \<open>Strings and the regular expressions of the source\<close>







definition backslash :: char where
  "backslash = CHR 0x5C"


definition starts_with :: "string \<Rightarrow> string \<Rightarrow> bool" where
  "starts_with s p = (take (length p) s = p)"





text \<open>\<open>s.find(pat)\<close> as the text before and after the first occurrence of \<open>pat\<close>.\<close>

fun find_split :: "string \<Rightarrow> string \<Rightarrow> (string \<times> string) option" where
  "find_split pat [] = (if pat = [] then Some ([], []) else None)"
| "find_split pat (c # cs) =
     (if starts_with (c # cs) pat then Some ([], drop (length pat) (c # cs))
      else map_option (\<lambda>(pre, post). (c # pre, post)) (find_split pat cs))"








subsection \<open>LaTeX pre-processing\<close>






















subsection \<open>Command detection\<close>

























subsection \<open>From LaTeX to algebraic notation\<close>

text \<open>
  \<open>_extract_braced(s, pos)\<close> on the text from \<open>pos\<close> on: the content of the balanced braces
  that open there, and the text after the closing brace.  \<open>close_brace d\<close> runs the loop
  with \<open>depth = d\<close>.
\<close>

fun close_brace :: "nat \<Rightarrow> string \<Rightarrow> (string \<times> string) option" where
  "close_brace d [] = None"
| "close_brace d (c # cs) =
     (if c = CHR ''{'' then map_option (\<lambda>(x, r). (c # x, r)) (close_brace (Suc d) cs)
      else if c = CHR ''}'' then
        (if d = Suc 0 then Some ([], cs)
         else map_option (\<lambda>(x, r). (c # x, r)) (close_brace (d - 1) cs))
      else map_option (\<lambda>(x, r). (c # x, r)) (close_brace d cs))"

definition extract_braced :: "string \<Rightarrow> (string \<times> string) option" where
  "extract_braced t = (case t of [] \<Rightarrow> None | c # cs \<Rightarrow> if c = CHR ''{'' then close_brace 1 cs else None)"

lemma close_brace_parts: "close_brace d t = Some (x, r) \<Longrightarrow> t = x @ CHR ''}'' # r"
proof (induction t arbitrary: d x)
  case Nil
  then show ?case by simp
next
  case (Cons c cs)
  then show ?case by (auto split: if_splits)
qed

lemma extract_braced_parts: "extract_braced t = Some (x, r) \<Longrightarrow> t = CHR ''{'' # x @ CHR ''}'' # r"
  by (auto simp: extract_braced_def split: list.splits if_splits dest: close_brace_parts)

lemma find_split_parts: "find_split pat s = Some (pre, post) \<Longrightarrow> s = pre @ pat @ post"
proof (induction s arbitrary: pre)
  case Nil
  then show ?case by (auto split: if_splits)
next
  case (Cons c cs)
  show ?case
  proof (cases "starts_with (c # cs) pat")
    case True
    with Cons.prems have "pre = []" "post = drop (length pat) (c # cs)" by auto
    moreover from True have "take (length pat) (c # cs) = pat" by (simp add: starts_with_def)
    ultimately show ?thesis by (metis append_Nil append_take_drop_id)
  next
    case False
    with Cons.prems obtain pre' where "find_split pat cs = Some (pre', post)" "pre = c # pre'"
      by (auto split: prod.splits)
    with Cons.IH show ?thesis by auto
  qed
qed

text \<open>
  \<open>_latex_to_algebra\<close>: the \<open>\frac\<close> loop, the \<open>\sqrt\<close> loop and the pass over the superscripts.
  A slice \<open>s[:idx]\<close> is the text before the occurrence found, \<open>s[pos2:]\<close> the text left
  after the braces.  Every round trades an opening brace for parentheses, which is why the
  loops end.
\<close>

definition braces :: "string \<Rightarrow> nat" where
  "braces s = count_list s (CHR ''{'')"

function latex_to_algebra :: "string \<Rightarrow> string"
  and frac_loop :: "string \<Rightarrow> string"
  and sqrt_loop :: "string \<Rightarrow> string"
  and superscripts :: "string \<Rightarrow> string"
where
  "latex_to_algebra tex = superscripts (sqrt_loop (frac_loop tex))"
| "frac_loop s =
     (case find_split (backslash # ''frac'') s of
        None \<Rightarrow> s
      | Some (pre, post) \<Rightarrow>
          (case extract_braced post of
             None \<Rightarrow> s
           | Some (num, r1) \<Rightarrow>
               (case extract_braced r1 of
                  None \<Rightarrow> s
                | Some (den, r2) \<Rightarrow>
                    frac_loop (pre @ ''(('' @ latex_to_algebra num @ '')/('' @
                               latex_to_algebra den @ ''))'' @ r2))))"
| "sqrt_loop s =
     (case find_split (backslash # ''sqrt'') s of
        None \<Rightarrow> s
      | Some (pre, post) \<Rightarrow>
          (if starts_with post ''['' then
             (case find_split '']'' post of
                None \<Rightarrow> s
              | Some (b, r0) \<Rightarrow>
                  (case extract_braced r0 of
                     None \<Rightarrow> s
                   | Some (arg, r2) \<Rightarrow>
                       sqrt_loop (pre @ ''(('' @ latex_to_algebra arg @ '')**(1/('' @
                                  latex_to_algebra (tl b) @ '')))'' @ r2)))
           else
             (case extract_braced post of
                None \<Rightarrow> s
              | Some (arg, r2) \<Rightarrow> sqrt_loop (pre @ ''sqrt('' @ latex_to_algebra arg @ '')'' @ r2))))"
| "superscripts [] = []"
| "superscripts (c # cs) =
     (case (if c = CHR ''^'' then extract_braced cs else None) of
        Some (e, r) \<Rightarrow> ''**('' @ latex_to_algebra e @ '')'' @ superscripts r
      | None \<Rightarrow> c # superscripts cs)"
  by pat_completeness auto

lemma braces_append [simp]: "braces (a @ b) = braces a + braces b"
  by (induction a) (auto simp: braces_def)

lemma braces_Cons: "braces (c # cs) = (if c = CHR ''{'' then 1 else 0) + braces cs"
  by (simp add: braces_def)

lemma braces_literals [simp]:
  "braces ''(('' = 0" "braces '')/('' = 0" "braces ''))'' = 0" "braces '')**(1/('' = 0"
  "braces '')))'' = 0" "braces ''sqrt('' = 0" "braces '')'' = 0" "braces ''**('' = 0"
  "braces (backslash # ''frac'') = 0" "braces (backslash # ''sqrt'') = 0" "braces '']'' = 0"
  by (simp_all add: braces_def backslash_def)

lemma braces_extract: "extract_braced t = Some (x, r) \<Longrightarrow> braces t = Suc (braces x + braces r)"
  by (drule extract_braced_parts) (simp add: braces_Cons)

lemma braces_tl: "braces (tl b) \<le> braces b"
  by (cases b) (auto simp: braces_Cons)

lemma latex_to_algebra_dom_braces:
  "latex_to_algebra_frac_loop_sqrt_loop_superscripts_dom (Inl (Inl tex)) \<Longrightarrow>
     braces (latex_to_algebra tex) \<le> braces tex"
  "latex_to_algebra_frac_loop_sqrt_loop_superscripts_dom (Inl (Inr s)) \<Longrightarrow>
     braces (frac_loop s) \<le> braces s"
  "latex_to_algebra_frac_loop_sqrt_loop_superscripts_dom (Inr (Inl s)) \<Longrightarrow>
     braces (sqrt_loop s) \<le> braces s"
  "latex_to_algebra_frac_loop_sqrt_loop_superscripts_dom (Inr (Inr s)) \<Longrightarrow>
     braces (superscripts s) \<le> braces s"
proof (induction tex and s and s and s rule: latex_to_algebra_frac_loop_sqrt_loop_superscripts.pinduct)
  case (1 tex)
  then show ?case by (simp add: latex_to_algebra.psimps)
next
  case (2 s)
  show ?case
  proof (cases "find_split (backslash # ''frac'') s")
    case None
    with 2(1) show ?thesis by (simp add: frac_loop.psimps)
  next
    case (Some p)
    obtain pre post where p: "p = (pre, post)" by (cases p)
    have s: "s = pre @ (backslash # ''frac'') @ post"
      using find_split_parts [of "backslash # ''frac''" s pre post] Some p by simp
    show ?thesis
    proof (cases "extract_braced post")
      case None
      with 2(1) Some p show ?thesis by (simp add: frac_loop.psimps)
    next
      case num: (Some q)
      obtain num r1 where q: "q = (num, r1)" by (cases q)
      show ?thesis
      proof (cases "extract_braced r1")
        case None
        with 2(1) Some p num q show ?thesis by (simp add: frac_loop.psimps)
      next
        case den: (Some q')
        obtain den r2 where q': "q' = (den, r2)" by (cases q')
        have a: "braces (latex_to_algebra num) \<le> braces num"
          using 2(2) Some p num q den q' by simp
        have b: "braces (latex_to_algebra den) \<le> braces den"
          using 2(3) Some p num q den q' by simp
        have c: "braces (frac_loop (pre @ ''(('' @ latex_to_algebra num @ '')/('' @
                               latex_to_algebra den @ ''))'' @ r2))
                 \<le> braces (pre @ ''(('' @ latex_to_algebra num @ '')/('' @
                               latex_to_algebra den @ ''))'' @ r2)"
          using 2(4) Some p num q den q' by simp
        have "braces post = Suc (braces num + braces r1)" using num q by (simp add: braces_extract)
        moreover have "braces r1 = Suc (braces den + braces r2)" using den q' by (simp add: braces_extract)
        ultimately have "braces s = braces pre + Suc (braces num + Suc (braces den + braces r2))"
          using s by (metis braces_append braces_literals(9) add_0)
        with a b c show ?thesis
          using 2(1) Some p num q den q' by (simp add: frac_loop.psimps braces_Cons)
      qed
    qed
  qed
next
  case (3 s)
  show ?case
  proof (cases "find_split (backslash # ''sqrt'') s")
    case None
    with 3(1) show ?thesis by (simp add: sqrt_loop.psimps)
  next
    case (Some p)
    obtain pre post where p: "p = (pre, post)" by (cases p)
    have s: "s = pre @ (backslash # ''sqrt'') @ post"
      using find_split_parts [of "backslash # ''sqrt''" s pre post] Some p by simp
    then have bs: "braces s = braces pre + braces post"
      by (metis braces_append braces_literals(10) add_0)
    show ?thesis
    proof (cases "starts_with post ''[''")
      case True
      show ?thesis
      proof (cases "find_split '']'' post")
        case None
        with 3(1) Some p True show ?thesis by (simp add: sqrt_loop.psimps)
      next
        case br: (Some q)
        obtain b r0 where q: "q = (b, r0)" by (cases q)
        have post: "post = b @ '']'' @ r0"
          using find_split_parts [of "'']''" post b r0] br q by simp
        show ?thesis
        proof (cases "extract_braced r0")
          case None
          with 3(1) Some p True br q show ?thesis by (simp add: sqrt_loop.psimps)
        next
          case ar: (Some q')
          obtain arg r2 where q': "q' = (arg, r2)" by (cases q')
          have a: "braces (latex_to_algebra arg) \<le> braces arg"
            using 3(2) Some p True br q ar q' by simp
          have b: "braces (latex_to_algebra (tl b)) \<le> braces (tl b)"
            using 3(3) Some p True br q ar q' by simp
          have c: "braces (sqrt_loop (pre @ ''(('' @ latex_to_algebra arg @ '')**(1/('' @
                                  latex_to_algebra (tl b) @ '')))'' @ r2))
                   \<le> braces (pre @ ''(('' @ latex_to_algebra arg @ '')**(1/('' @
                                  latex_to_algebra (tl b) @ '')))'' @ r2)"
            using 3(4) Some p True br q ar q' by simp
          have "braces r0 = Suc (braces arg + braces r2)" using ar q' by (simp add: braces_extract)
          with post have "braces post = braces b + Suc (braces arg + braces r2)"
            by (metis braces_append braces_literals(11) add_0)
          with a b c bs braces_tl [of b] show ?thesis
            using 3(1) Some p True br q ar q' by (simp add: sqrt_loop.psimps braces_Cons)
        qed
      qed
    next
      case False
      show ?thesis
      proof (cases "extract_braced post")
        case None
        with 3(1) Some p False show ?thesis by (simp add: sqrt_loop.psimps)
      next
        case ar: (Some q')
        obtain arg r2 where q': "q' = (arg, r2)" by (cases q')
        have a: "braces (latex_to_algebra arg) \<le> braces arg"
          using 3(5) Some p False ar q' by simp
        have c: "braces (sqrt_loop (pre @ ''sqrt('' @ latex_to_algebra arg @ '')'' @ r2))
                   \<le> braces (pre @ ''sqrt('' @ latex_to_algebra arg @ '')'' @ r2)"
          using 3(6) Some p False ar q' by simp
        have "braces post = Suc (braces arg + braces r2)" using ar q' by (simp add: braces_extract)
        with a c bs show ?thesis
          using 3(1) Some p False ar q' by (simp add: sqrt_loop.psimps braces_Cons)
      qed
    qed
  qed
next
  case 4
  then show ?case by (simp add: superscripts.psimps)
next
  case (5 c cs)
  show ?case
  proof (cases "if c = CHR ''^'' then extract_braced cs else None")
    case None
    with 5 show ?thesis by (simp add: superscripts.psimps braces_Cons)
  next
    case (Some q)
    obtain e r where q: "q = (e, r)" by (cases q)
    from Some q have c: "c = CHR ''^''" and ex: "extract_braced cs = Some (e, r)"
      by (auto split: if_splits)
    have a: "braces (latex_to_algebra e) \<le> braces e" using 5(3) [OF Some q [symmetric]] .
    have b: "braces (superscripts r) \<le> braces r" using 5(4) [OF Some q [symmetric]] .
    have "braces cs = Suc (braces e + braces r)" using ex by (simp add: braces_extract)
    with a b c show ?thesis
      using 5(1) Some q by (simp add: superscripts.psimps braces_Cons)
  qed
qed

lemma frac_split_braces:
  "find_split (backslash # ''frac'') s = Some (pre, post) \<Longrightarrow> braces s = braces pre + braces post"
  using find_split_parts [of "backslash # ''frac''" s pre post]
  by (metis braces_append braces_literals(9) add_0)

lemma sqrt_split_braces:
  "find_split (backslash # ''sqrt'') s = Some (pre, post) \<Longrightarrow> braces s = braces pre + braces post"
  using find_split_parts [of "backslash # ''sqrt''" s pre post]
  by (metis braces_append braces_literals(10) add_0)

lemma bracket_split_braces:
  "find_split '']'' post = Some (b, r0) \<Longrightarrow> braces post = braces b + braces r0"
  using find_split_parts [of "'']''" post b r0]
  by (metis braces_append braces_literals(11) add_0)

lemma extract_braced_shorter: "extract_braced t = Some (x, r) \<Longrightarrow> length r < length t"
  by (drule extract_braced_parts) simp

termination latex_to_algebra
proof (relation "measures [
    (\<lambda>x. case x of Inl (Inl s) \<Rightarrow> braces s | Inl (Inr s) \<Rightarrow> braces s
                   | Inr (Inl s) \<Rightarrow> braces s | Inr (Inr s) \<Rightarrow> braces s),
    (\<lambda>x. case x of Inl (Inl s) \<Rightarrow> 3 | Inl (Inr s) \<Rightarrow> 2 | Inr (Inl s) \<Rightarrow> 1 | Inr (Inr s) \<Rightarrow> 0),
    (\<lambda>x. case x of Inl (Inl s) \<Rightarrow> length s | Inl (Inr s) \<Rightarrow> length s
                   | Inr (Inl s) \<Rightarrow> length s | Inr (Inr s) \<Rightarrow> length s)]", goal_cases)
  case 1
  then show ?case by simp
next
  case (2 tex)
  then show ?case by simp
next
  case (3 tex)
  then show ?case using latex_to_algebra_dom_braces(2) [of tex] by auto
next
  case (4 tex)
  then show ?case
    using latex_to_algebra_dom_braces(2) [of tex]
      latex_to_algebra_dom_braces(3) [of "frac_loop tex"] by auto
next
  case (5 s x2 pre post x2a num r1 x2b den r2)
  then show ?case
    by (auto dest!: frac_split_braces braces_extract)
next
  case (6 s x2 pre post x2a num r1 x2b den r2)
  then show ?case
    by (auto dest!: frac_split_braces braces_extract)
next
  case (7 s x2 pre post x2a num r1 x2b den r2)
  then show ?case
    using latex_to_algebra_dom_braces(1) [of num] latex_to_algebra_dom_braces(1) [of den]
    by (auto dest!: frac_split_braces braces_extract simp: braces_Cons)
next
  case (8 s x2 pre post x2a b r0 x2b arg r2)
  then show ?case
    by (auto dest!: sqrt_split_braces bracket_split_braces braces_extract)
next
  case (9 s x2 pre post x2a b r0 x2b arg r2)
  then show ?case
    using braces_tl [of b]
    by (auto dest!: sqrt_split_braces bracket_split_braces braces_extract)
next
  case (10 s x2 pre post x2a b r0 x2b arg r2)
  then show ?case
    using latex_to_algebra_dom_braces(1) [of arg] latex_to_algebra_dom_braces(1) [of "tl b"]
      braces_tl [of b]
    by (auto dest!: sqrt_split_braces bracket_split_braces braces_extract simp: braces_Cons)
next
  case (11 s x2 pre post x2a arg r2)
  then show ?case
    by (auto dest!: sqrt_split_braces braces_extract)
next
  case (12 s x2 pre post x2a arg r2)
  then show ?case
    using latex_to_algebra_dom_braces(1) [of arg]
    by (auto dest!: sqrt_split_braces braces_extract simp: braces_Cons)
next
  case (13 c cs)
  then show ?case by (simp add: braces_Cons)
next
  case (14 c cs x2 e r)
  then show ?case
    by (auto dest!: braces_extract simp: braces_Cons split: if_splits)
next
  case (15 c cs x2 e r)
  then show ?case
    by (auto dest: braces_extract extract_braced_shorter simp: braces_Cons split: if_splits)
qed

subsection \<open>Parsing\<close>

text \<open>Computations that read and write the session and may raise.\<close>

type_synonym 'a cas = "session \<Rightarrow> session \<times> (error + 'a)"

definition cas_return :: "'a \<Rightarrow> 'a cas" where
  "cas_return x s = (s, Inr x)"

definition cas_raise :: "error \<Rightarrow> 'a cas" where
  "cas_raise e s = (s, Inl e)"

definition cas_lift :: "error + 'a \<Rightarrow> 'a cas" where
  "cas_lift r s = (s, r)"

definition cas_bind :: "'a cas \<Rightarrow> ('a \<Rightarrow> 'b cas) \<Rightarrow> 'b cas" where
  "cas_bind m f s = (case m s of (s', Inl e) \<Rightarrow> (s', Inl e) | (s', Inr x) \<Rightarrow> f x s')"















subsection \<open>Matrix LaTeX parsing\<close>









subsection \<open>Result records\<close>

text \<open>
  The engine returns \<open>json.dumps\<close> of a dictionary; the model returns the dictionary.
\<close>

datatype json = JBool bool | JStr string | JInt int | JList "json list"

type_synonym result = "(string \<times> json) list"










subsection \<open>Assignment handlers\<close>
















subsection \<open>Command handlers\<close>

















subsection \<open>Matrix handlers\<close>
































subsection \<open>LaTeX calculus notation handlers\<close>












subsection \<open>Main evaluation\<close>














text \<open>\<open>cas_clear\<close>\<close>

definition cas_clear :: "session \<Rightarrow> session \<times> result" where
  "cas_clear s = (empty_session, [(''ok'', JBool True)])"

subsection \<open>A small library for concrete runs\<close>


















subsection \<open>The resolver leaves the session alone\<close>

lemma resolve_variable_frame:
  "map_of (variables s) name \<noteq> None \<or> name \<in> visited \<Longrightarrow>
     fst (resolve_variable k d s name visited) = s"
  "fst (resolve_variable_loop k d s syms visited sb) = s"
proof (induction k d s name visited and k d s syms visited sb
    rule: resolve_variable_resolve_variable_loop.induct)
  case (1 k s name visited)
  then show ?case by simp
next
  case (2 k d s name visited)
  then show ?case
    by (auto split: option.splits prod.splits sum.splits)
next
  case (3 k d s visited sb)
  then show ?case by simp
next
  case (4 k d s sm rest visited sb)
  then show ?case
    by (auto split: option.splits prod.splits sum.splits)
qed

lemma resolve_expr_loop_frame: "fst (resolve_expr_loop k d s syms exclude sb) = s"
proof (induction syms arbitrary: sb)
  case Nil
  then show ?case by simp
next
  case (Cons sm rest)
  show ?case
  proof (cases "map_of (variables s) (str sm) \<noteq> None \<and> str sm \<notin> exclude")
    case True
    then have f: "fst (resolve_variable k d s (str sm) {}) = s"
      using resolve_variable_frame(1) by blast
    obtain s' r where r: "resolve_variable k d s (str sm) {} = (s', r)"
      by (cases "resolve_variable k d s (str sm) {}")
    with f have "s' = s" by simp
    with True r Cons show ?thesis by (cases r) auto
  next
    case False
    with Cons show ?thesis by auto
  qed
qed

lemma apply_user_functions_frame:
  "fst (apply_user_functions k d s e) = s"
  "fst (apply_user_functions_args k d s es) = s"
  "fst (apply_user_functions_walk k d s e) = s"
  "fst (resolve_expr k d s e exclude) = s"
proof (induction k d s e and k d s es and k d s e and k d s e exclude
    rule: apply_user_functions_apply_user_functions_args_apply_user_functions_walk_resolve_expr.induct)
  case (1 k s e)
  then show ?case by simp
next
  case (2 k d s e)
  show ?case
  proof (cases "user_function_call s e")
    case None
    with 2 show ?thesis by simp
  next
    case (Some p)
    obtain fdef as where p: "p = (fdef, as)" by (cases p)
    show ?thesis
    proof (cases "subs k (fb_expr fdef) (zip (fb_params fdef) as)")
      case (Inl err)
      with Some p show ?thesis by simp
    next
      case (Inr result)
      have a: "fst (apply_user_functions k d s result) = s"
        using 2 Some p Inr by simp
      obtain s' r where r: "apply_user_functions k d s result = (s', r)"
        by (cases "apply_user_functions k d s result")
      with a have s': "s' = s" by simp
      show ?thesis
      proof (cases r)
        case (Inl err)
        with Some p \<open>subs k (fb_expr fdef) (zip (fb_params fdef) as) = Inr result\<close> r s'
        show ?thesis by simp
      next
        case r': (Inr result')
        have "fst (resolve_expr k d s' result' {}) = s'"
          using 2(3) [OF Some p [symmetric] Inr r [symmetric] r'] .
        with Some p Inr r s' r' show ?thesis by simp
      qed
    qed
  qed
next
  case (3 k d s e)
  then show ?case by (auto split: prod.splits sum.splits)
next
  case (4 k d s)
  then show ?case by simp
next
  case (5 k d s a as)
  then show ?case by (auto split: prod.splits sum.splits)
next
  case (6 k s e exclude)
  then show ?case by simp
next
  case (7 k d s e exclude)
  have a: "fst (apply_user_functions k d s e) = s" using 7 by simp
  obtain s' r where r: "apply_user_functions k d s e = (s', r)"
    by (cases "apply_user_functions k d s e")
  with a have s': "s' = s" by simp
  show ?case
  proof (cases r)
    case (Inl err)
    with r s' show ?thesis by simp
  next
    case (Inr e')
    have "fst (resolve_expr_loop k d s (free_symbols k e') exclude []) = s"
      by (rule resolve_expr_loop_frame)
    with r s' Inr show ?thesis by (auto split: prod.splits sum.splits)
  qed
qed

text \<open>
  C6.  \<open>_resolve_expr\<close> returns with the three dictionaries as it found them, whatever the
  expression, the exclude set and the recursion depth left, and also when it raises.  (The
  one write in its call tree is \<open>_get_symbol\<close> in \<open>_resolve_variable\<close>, on a name that is not
  a variable; \<open>_resolve_expr\<close> only ever passes names that are.)
\<close>

theorem resolver_never_mutates_session:
  "fst (resolve_expr k d s e exclude) = s"
  by (rule apply_user_functions_frame(4))

subsection \<open>Reasoning about computations on the session\<close>

lemma cas_bind_Inr: "m s = (s', Inr x) \<Longrightarrow> cas_bind m f s = f x s'"
  by (simp add: cas_bind_def)

lemma cas_bind_Inl: "m s = (s', Inl e) \<Longrightarrow> cas_bind m f s = (s', Inl e)"
  by (simp add: cas_bind_def)

lemma cas_bind_cases:
  obtains (raised) s' e where "m s = (s', Inl e)" "cas_bind m f s = (s', Inl e)"
  | (returned) s' x where "m s = (s', Inr x)" "cas_bind m f s = f x s'"
proof (cases "m s")
  case (Pair s' r)
  then show ?thesis by (cases r) (auto intro: raised returned simp: cas_bind_def)
qed

lemma cas_lift_simp [simp]: "cas_lift r s = (s, r)"
  by (simp add: cas_lift_def)

lemma cas_return_simp [simp]: "cas_return x s = (s, Inr x)"
  by (simp add: cas_return_def)

lemma cas_raise_simp [simp]: "cas_raise e s = (s, Inl e)"
  by (simp add: cas_raise_def)

subsection \<open>An assignment that completes a cycle\<close>



subsection \<open>Evaluating a bare name\<close>





























lemma get_symbol_tables [simp]:
  "variables (fst (get_symbol s n)) = variables s" "funcs (fst (get_symbol s n)) = funcs s"
  by (auto simp: get_symbol_def split: option.splits)








subsection \<open>Cycle detection\<close>

text \<open>
  A variable depends on a name when the name is free in its stored body and is itself a
  variable of the session.
\<close>

definition dependency :: "sympy \<Rightarrow> session \<Rightarrow> (string \<times> string) set" where
  "dependency k s =
     {(a, b). \<exists>bd. map_of (variables s) a = Some bd
                \<and> b \<in> str ` set (free_symbols k (vb_expr bd))
                \<and> map_of (variables s) b \<noteq> None}"

text \<open>
  A name is clean for a set of visited names when nothing that it reaches through
  dependencies, itself included, is visited or lies on a cycle.
\<close>

definition clean :: "sympy \<Rightarrow> session \<Rightarrow> string set \<Rightarrow> string \<Rightarrow> bool" where
  "clean k s visited m =
     (\<forall>w. (m, w) \<in> (dependency k s)\<^sup>* \<longrightarrow> w \<notin> visited \<and> (w, w) \<notin> (dependency k s)\<^sup>+)"

text \<open>
  The first name met a second time.  Dependencies are followed depth first, the free symbols
  of a body in the order in which the library lists them; a dependency is entered when all
  those listed before it are clean, and the walk ends at the first name that is already
  visited.
\<close>

inductive revisits :: "sympy \<Rightarrow> session \<Rightarrow> string set \<Rightarrow> string \<Rightarrow> string \<Rightarrow> bool"
  for k :: sympy and s :: session
where
  here: "name \<in> visited \<Longrightarrow> revisits k s visited name name"
| below: "name \<notin> visited \<Longrightarrow> map_of (variables s) name = Some b \<Longrightarrow>
          free_symbols k (vb_expr b) = pre @ sm # post \<Longrightarrow>
          map_of (variables s) (str sm) \<noteq> None \<Longrightarrow>
          (\<forall>p\<in>set pre. map_of (variables s) (str p) \<noteq> None \<longrightarrow> clean k s (insert name visited) (str p)) \<Longrightarrow>
          revisits k s (insert name visited) (str sm) x \<Longrightarrow>
          revisits k s visited name x"












lemma dependency_get_symbol [simp]: "dependency k (fst (get_symbol s n)) = dependency k s"
  by (simp add: dependency_def)

lemma clean_get_symbol [simp]: "clean k (fst (get_symbol s n)) = clean k s"
  by (simp add: clean_def fun_eq_iff)




end
